theory Spec2Isabelle
  imports Main "HOL-Library.Sublist"
begin

section \<open>Repository synchronisation (update.c)\<close>

text \<open>
  A shallow embedding of \<^verbatim>\<open>update.c\<close>: the configuration parser
  (\<^verbatim>\<open>find_active_repos\<close>, \<^verbatim>\<open>add_servers_from_include\<close>), URL templating
  (\<^verbatim>\<open>prepare_url\<close>), the download loop (\<^verbatim>\<open>download_repo_files\<close>), the
  archive transcoder (\<^verbatim>\<open>decompress_repo_file\<close>) and the orchestrator
  (\<^verbatim>\<open>nosr_update\<close>).

  C strings are \<^typ>\<open>string\<close>; a \<^verbatim>\<open>char *\<close> that may be \<^verbatim>\<open>NULL\<close> is a
  \<^typ>\<open>string option\<close>. Reads through an invalid pointer are values of type \<open>fault\<close>.
  Failure of \<^verbatim>\<open>calloc\<close>, \<^verbatim>\<open>realloc\<close>, \<^verbatim>\<open>strdup\<close>, \<^verbatim>\<open>asprintf\<close> and
  of the constructors of the archive objects to allocate is outside the model. Of a
  message that ends in the text of an error code (\<^verbatim>\<open>strerror\<close>,
  \<^verbatim>\<open>archive_error_string\<close>) the fixed part is kept.
\<close>

subsection \<open>Data\<close>

record repo_t =
  name :: string
  servers :: "string list"  \<comment> \<open>\<^verbatim>\<open>servercount\<close> is the length\<close>

datatype fault =
    Out_of_bounds_read  \<comment> \<open>\<^verbatim>\<open>active_repos[*repocount - 1]\<close> with \<^verbatim>\<open>*repocount == 0\<close>\<close>
  | Null_string         \<comment> \<open>a \<^verbatim>\<open>NULL\<close> string handed to \<^verbatim>\<open>strdup\<close> or \<^verbatim>\<open>fopen\<close>\<close>

datatype event =
    Stdout string
  | Stderr string
  | Perror string            \<comment> \<open>\<^verbatim>\<open>perror(s)\<close>: \<open>s\<close>, then the text of \<^verbatim>\<open>errno\<close>\<close>
  | Unlink string            \<comment> \<open>\<^verbatim>\<open>unlink(path)\<close>\<close>
  | Fetch string bool        \<comment> \<open>\<^verbatim>\<open>alpm_fetch_pkgurl(alpm, url)\<close> and whether it returned a path\<close>
  | Rename string string bool  \<comment> \<open>\<^verbatim>\<open>rename(old, new)\<close> and whether it succeeded\<close>

subsection \<open>String helpers\<close>

definition isspace :: "char \<Rightarrow> bool" where
  "isspace c \<longleftrightarrow>
     c = CHR '' '' \<or> c = CHR 0x09 \<or> c = CHR 0x0A \<or> c = CHR 0x0B \<or> c = CHR 0x0C \<or> c = CHR 0x0D"

text \<open>
  Modelled from the spec: \<^verbatim>\<open>strtrim\<close> is defined in \<^verbatim>\<open>util.c\<close>, which is not
  among the sources; the specification has lines and values ``trimmed of whitespace'',
  leading and trailing.
\<close>

definition strtrim :: "string \<Rightarrow> string" where
  "strtrim s = rev (dropWhile isspace (rev (dropWhile isspace s)))"

text \<open>
  Modelled from the spec: \<^verbatim>\<open>strreplace\<close> is defined in \<^verbatim>\<open>util.c\<close>, which is
  not among the sources; the specification has it substitute every occurrence of the
  token. Occurrences are found scanning from the left and do not overlap.
\<close>

fun strreplace :: "string \<Rightarrow> string \<Rightarrow> string \<Rightarrow> string" where
  "strreplace [] needle replace = []"
| "strreplace (c # cs) needle replace =
     (if needle \<noteq> [] \<and> prefix needle (c # cs)
      then replace @ strreplace (drop (length needle) (c # cs)) needle replace
      else c # strreplace cs needle replace)"

text \<open>\<^verbatim>\<open>strstr(haystack, needle) != NULL\<close>.\<close>

fun strstr :: "string \<Rightarrow> string \<Rightarrow> bool" where
  "strstr [] needle \<longleftrightarrow> needle = []"
| "strstr (c # cs) needle \<longleftrightarrow> prefix needle (c # cs) \<or> strstr cs needle"

text \<open>The bytes of a buffer up to its first NUL: what the string functions see.\<close>

definition c_str :: "string \<Rightarrow> string" where
  "c_str buf = takeWhile (\<lambda>c. c \<noteq> CHR 0x00) buf"

text \<open>
  \<^verbatim>\<open>fgets(line, n + 1, fp)\<close>: at most \<open>n\<close> bytes, stopping after a newline; the
  result is the buffer and the rest of the stream.
\<close>

fun fgets :: "nat \<Rightarrow> string \<Rightarrow> string \<times> string" where
  "fgets 0 s = ([], s)"
| "fgets (Suc n) [] = ([], [])"
| "fgets (Suc n) (c # s) =
     (if c = CHR 0x0A then ([c], s)
      else (case fgets n s of (l, r) \<Rightarrow> (c # l, r)))"

lemma fgets_rest_length: "length (snd (fgets n s)) \<le> length s"
  by (induction n s rule: fgets.induct) (auto split: prod.splits)

lemma fgets_rest_shorter: "s \<noteq> [] \<Longrightarrow> length (snd (fgets (Suc n) s)) < length s"
proof (cases s)
  case Nil
  assume "s \<noteq> []"
  with Nil show ?thesis by simp
next
  case (Cons c cs)
  have "length (snd (fgets n cs)) \<le> length cs" by (rule fgets_rest_length)
  with Cons show ?thesis by (auto split: prod.splits)
qed

text \<open>
  The buffers delivered by \<^verbatim>\<open>while(fgets(line, 4096, fp))\<close> over a file's bytes:
  \<^verbatim>\<open>fgets\<close> returns \<^verbatim>\<open>NULL\<close> at end of file.
\<close>

function read_lines :: "string \<Rightarrow> string list" where
  "read_lines s =
     (if s = [] then []
      else (case fgets 4095 s of (l, r) \<Rightarrow> l # read_lines r))"
  by pat_completeness auto
termination
  apply (relation "measure length")
   apply simp
  using fgets_rest_shorter [of _ 4094]
  apply (simp add: eval_nat_numeral)
  apply (metis snd_conv)
  done

declare read_lines.simps [simp del]

text \<open>
  The head of both parsing loops: cut the line at \<^verbatim>\<open>#\<close>, then \<^verbatim>\<open>strtrim\<close> it.
\<close>

definition strip_line :: "string \<Rightarrow> string" where
  "strip_line buf = strtrim (takeWhile (\<lambda>c. c \<noteq> CHR ''#'') (c_str buf))"

text \<open>
  \<^verbatim>\<open>line_get_val(line, "=")\<close>: \<^verbatim>\<open>strsep\<close> leaves \<^verbatim>\<open>NULL\<close> when the line has no
  separator, and \<^verbatim>\<open>NULL\<close> is what is returned then.
\<close>

definition line_get_val :: "string \<Rightarrow> string option" where
  "line_get_val line =
     (if CHR ''='' \<in> set line
      then Some (strtrim (tl (dropWhile (\<lambda>c. c \<noteq> CHR ''='') line)))
      else None)"

text \<open>The key of a \<^verbatim>\<open>key=value\<close> line: the text before the separator, trimmed.\<close>

definition line_key :: "string \<Rightarrow> string" where
  "line_key line = strtrim (takeWhile (\<lambda>c. c \<noteq> CHR ''='') line)"

subsection \<open>Repositories\<close>

definition repo_new :: "string \<Rightarrow> repo_t" where
  "repo_new reponame = \<lparr>name = reponame, servers = []\<rparr>"

text \<open>
  \<^verbatim>\<open>repo_add_server\<close> returns 1 for a \<^verbatim>\<open>NULL\<close> repository and otherwise appends a
  copy of the server string; the result is the return value and the repository.
\<close>

definition repo_add_server :: "repo_t option \<Rightarrow> string option \<Rightarrow> fault + (int \<times> repo_t option)" where
  "repo_add_server repo server =
     (case repo of
        None \<Rightarrow> Inr (1, None)
      | Some r \<Rightarrow>
          (case server of
             None \<Rightarrow> Inl Null_string
           | Some s \<Rightarrow> Inr (0, Some (r\<lparr>servers := servers r @ [s]\<rparr>))))"

text \<open>
  \<^verbatim>\<open>add_servers_from_include\<close>, the loop over the included file's lines: a line
  whose first six bytes are \<^verbatim>\<open>Server\<close> (\<^verbatim>\<open>strncmp\<close> over
  \<^verbatim>\<open>strlen(server)\<close> bytes) gives its value to \<^verbatim>\<open>repo_add_server\<close>.
\<close>

fun include_loop :: "repo_t option \<Rightarrow> string list \<Rightarrow> fault + repo_t option" where
  "include_loop repo [] = Inr repo"
| "include_loop repo (buf # rest) =
     (let line = strip_line buf in
      if line = [] then include_loop repo rest
      else if take (length ''Server'') line = ''Server'' then
        (case repo_add_server repo (line_get_val line) of
           Inl e \<Rightarrow> Inl e
         | Inr (_, repo') \<Rightarrow> include_loop repo' rest)
      else include_loop repo rest)"

text \<open>
  The file system the parser reads is a map from path to contents; \<^verbatim>\<open>fopen\<close>
  fails on a path it does not hold. The result of \<^verbatim>\<open>add_servers_from_include\<close> is
  its return value, the repository and what it wrote to \<^verbatim>\<open>stderr\<close>.
\<close>

definition add_servers_from_include ::
  "(string \<rightharpoonup> string) \<Rightarrow> repo_t option \<Rightarrow> string option \<Rightarrow> fault + (int \<times> repo_t option \<times> event list)" where
  "add_servers_from_include fs repo file =
     (case file of
        None \<Rightarrow> Inl Null_string
      | Some path \<Rightarrow>
          (case fs path of
             None \<Rightarrow> Inr (1, repo, [Perror ''fopen''])
           | Some contents \<Rightarrow>
               (case include_loop repo (read_lines contents) of
                  Inl e \<Rightarrow> Inl e
                | Inr repo' \<Rightarrow> Inr (0, repo', []))))"

subsection \<open>The configuration parser\<close>

record parser =
  active_repos :: "repo_t list"  \<comment> \<open>\<^verbatim>\<open>*repocount\<close> is the length\<close>
  cur_section :: "string option"  \<comment> \<open>\<^verbatim>\<open>section\<close>; \<^verbatim>\<open>NULL\<close> before the first header\<close>
  in_options :: bool
  errors :: "event list"  \<comment> \<open>written to \<^verbatim>\<open>stderr\<close>, oldest first\<close>

text \<open>
  \<^verbatim>\<open>active_repos[*repocount - 1]\<close>: with no repository yet the array is
  \<^verbatim>\<open>NULL\<close> and the index is \<open>-1\<close>.
\<close>

definition current_repo :: "parser \<Rightarrow> fault + repo_t option" where
  "current_repo st =
     (if active_repos st = [] then Inl Out_of_bounds_read
      else Inr (Some (last (active_repos st))))"

text \<open>The repository is changed through the pointer held in the last slot.\<close>

definition store_current :: "parser \<Rightarrow> repo_t option \<Rightarrow> parser" where
  "store_current st repo =
     (case repo of
        None \<Rightarrow> st
      | Some r \<Rightarrow> st\<lparr>active_repos := butlast (active_repos st) @ [r]\<rparr>)"

text \<open>The \<^verbatim>\<open>key=value\<close> branch of \<^verbatim>\<open>find_active_repos\<close>.\<close>

definition key_value :: "(string \<rightharpoonup> string) \<Rightarrow> parser \<Rightarrow> string \<Rightarrow> fault + parser" where
  "key_value fs st line =
     (let val = line_get_val line; key = line_key line in
      if key = ''Server'' then
        (case current_repo st of
           Inl e \<Rightarrow> Inl e
         | Inr repo \<Rightarrow>
             (case repo_add_server repo val of
                Inl e \<Rightarrow> Inl e
              | Inr (_, repo') \<Rightarrow> Inr (store_current st repo')))
      else if key = ''Include'' then
        (case current_repo st of
           Inl e \<Rightarrow> Inl e
         | Inr repo \<Rightarrow>
             (case add_servers_from_include fs repo val of
                Inl e \<Rightarrow> Inl e
              | Inr (_, repo', msgs) \<Rightarrow>
                  Inr ((store_current st repo')\<lparr>errors := errors st @ msgs\<rparr>)))
      else Inr st)"

text \<open>A line \<^verbatim>\<open>[...]\<close>, and the section name \<^verbatim>\<open>strndup\<close> copies out of it.\<close>

definition is_header :: "string \<Rightarrow> bool" where
  "is_header line \<longleftrightarrow> line \<noteq> [] \<and> hd line = CHR ''['' \<and> last line = CHR '']''"

definition section_name :: "string \<Rightarrow> string" where
  "section_name line = take (length line - 2) (tl line)"

text \<open>The body of the \<^verbatim>\<open>while\<close> loop of \<^verbatim>\<open>find_active_repos\<close>, for one buffer.\<close>

definition process_line :: "(string \<rightharpoonup> string) \<Rightarrow> parser \<Rightarrow> string \<Rightarrow> fault + parser" where
  "process_line fs st buf =
     (let line = strip_line buf in
      if line = [] then Inr st
      else if is_header line \<and> section_name line = ''options'' then
        Inr (st\<lparr>cur_section := Some (section_name line), in_options := True\<rparr>)
      else
        (let st1 =
           (if is_header line
            then st\<lparr>active_repos := active_repos st @ [repo_new (section_name line)],
                    cur_section := Some (section_name line), in_options := False\<rparr>
            else st)
         in if in_options st1 then Inr st1
            else if CHR ''='' \<in> set line then key_value fs st1 line
            else Inr st1))"

fun parse_lines :: "(string \<rightharpoonup> string) \<Rightarrow> parser \<Rightarrow> string list \<Rightarrow> fault + parser" where
  "parse_lines fs st [] = Inr st"
| "parse_lines fs st (buf # rest) =
     (case process_line fs st buf of
        Inl e \<Rightarrow> Inl e
      | Inr st' \<Rightarrow> parse_lines fs st' rest)"

definition parser_init :: parser where
  "parser_init = \<lparr>active_repos = [], cur_section = None, in_options = False, errors = []\<rparr>"

text \<open>
  \<^verbatim>\<open>find_active_repos\<close>: the repositories returned are \<open>active_repos\<close> of the
  result, in order. A file that cannot be opened gives \<^verbatim>\<open>NULL\<close> and a count of 0.
\<close>

definition find_active_repos :: "(string \<rightharpoonup> string) \<Rightarrow> string \<Rightarrow> fault + parser" where
  "find_active_repos fs filename =
     (case fs filename of
        None \<Rightarrow> Inr (parser_init\<lparr>errors := [Stderr (''error: failed to open '' @ filename)]\<rparr>)
      | Some contents \<Rightarrow> parse_lines fs parser_init (read_lines contents))"

subsection \<open>URL templating\<close>

definition prepare_url :: "string \<Rightarrow> string \<Rightarrow> string \<Rightarrow> string \<Rightarrow> string" where
  "prepare_url url repo arch sfx =
     (let temp = url;
          temp = (if strstr temp ''$arch'' then strreplace temp ''$arch'' arch else temp);
          temp = (if strstr temp ''$repo'' then strreplace temp ''$repo'' repo else temp)
      in temp @ ''/'' @ repo @ sfx)"

subsection \<open>The cache directory and the collaborators\<close>

text \<open>
  The archive library is seen through its interface. A source archive is the list of
  entries for which \<^verbatim>\<open>archive_read_next_header\<close> answers \<^verbatim>\<open>ARCHIVE_OK\<close>, before
  its first other answer (\<^verbatim>\<open>ARCHIVE_EOF\<close> at the end of a sound archive); an entry
  carries the blocks that successive \<^verbatim>\<open>archive_read_data\<close> calls deliver, an empty
  block standing for the answer 0 (a negative answer, a read error inside an entry, is
  not modelled). What the writer has put into a file is the list of headers and data
  blocks written so far; a write that fails adds nothing.
\<close>

record archive_entry =
  header :: string
  blocks :: "string list"

datatype item = Header string | Data string

datatype "file" = Archive "archive_entry list" | Cpio "item list"

definition ARCHIVE_OK :: int where "ARCHIVE_OK = 0"
definition ARCHIVE_FATAL :: int where "ARCHIVE_FATAL = - 30"
definition PATH_MAX :: nat where "PATH_MAX = 4096"

text \<open>
  The state of a run. \<open>cachepath\<close> is the value of the macro \<^verbatim>\<open>CACHEPATH\<close>, which
  \<^verbatim>\<open>update.c\<close> takes from a header. The outcome of the \<open>n\<close>-th
  \<^verbatim>\<open>alpm_fetch_pkgurl\<close> call of the run is \<open>net w n url\<close>, the file obtained or
  \<open>None\<close>; the \<open>n\<close>-th call on the archive writer for a path (the call that opens it
  is number 0) succeeds when \<open>write_ok w path n\<close>.
\<close>

record world =
  files :: "string \<rightharpoonup> file"
  trace :: "event list"  \<comment> \<open>system calls and output, oldest first\<close>
  cachepath :: string
  machine :: string  \<comment> \<open>\<^verbatim>\<open>un.machine\<close> after \<^verbatim>\<open>uname\<close>\<close>
  isatty :: bool  \<comment> \<open>\<^verbatim>\<open>isatty(STDOUT_FILENO)\<close>\<close>
  interactive :: bool
  cache_writable :: bool  \<comment> \<open>\<^verbatim>\<open>access(CACHEPATH, W_OK) == 0\<close>\<close>
  alpm_ok :: bool  \<comment> \<open>\<^verbatim>\<open>alpm_initialize\<close> returns a handle\<close>
  net :: "nat \<Rightarrow> string \<Rightarrow> file option"
  fetches :: nat  \<comment> \<open>calls of \<^verbatim>\<open>alpm_fetch_pkgurl\<close> so far\<close>
  write_ok :: "string \<Rightarrow> nat \<Rightarrow> bool"
  a_out :: nat  \<comment> \<open>calls on the open archive writer so far\<close>
  rename_ok :: "string \<Rightarrow> string \<Rightarrow> bool"

definition emit :: "event \<Rightarrow> world \<Rightarrow> world" where
  "emit e w = w\<lparr>trace := trace w @ [e]\<rparr>"

text \<open>\<^verbatim>\<open>snprintf(b, PATH_MAX, CACHEPATH "/%s" ext, dbname)\<close> keeps \<open>PATH_MAX - 1\<close> bytes.\<close>

definition cache_file :: "world \<Rightarrow> string \<Rightarrow> string \<Rightarrow> string" where
  "cache_file w dbname ext = take (PATH_MAX - 1) (cachepath w @ ''/'' @ dbname @ ext)"

text \<open>\<^verbatim>\<open>unlink\<close> removes the path; its result is dropped by the caller.\<close>

definition unlink_files_dbfile :: "string \<Rightarrow> world \<Rightarrow> int \<times> world" where
  "unlink_files_dbfile dbname w =
     (let b = cache_file w dbname ''.files'' in
      (if files w b = None then - 1 else 0,
       emit (Unlink b) (w\<lparr>files := (files w)(b := None)\<rparr>)))"

text \<open>
  \<^verbatim>\<open>alpm_fetch_pkgurl\<close> belongs to the package library. It is given the cache
  directory by \<^verbatim>\<open>alpm_option_add_cachedir\<close> and stores what it obtains there, under
  the last path segment of the URL; a failed transfer leaves the directory as it was.
\<close>

definition url_filename :: "string \<Rightarrow> string" where
  "url_filename url = rev (takeWhile (\<lambda>c. c \<noteq> CHR ''/'') (rev url))"

definition alpm_fetch_pkgurl :: "string \<Rightarrow> world \<Rightarrow> string option \<times> world" where
  "alpm_fetch_pkgurl url w =
     (case net w (fetches w) url of
        None \<Rightarrow>
          (None, emit (Fetch url False) (w\<lparr>fetches := Suc (fetches w)\<rparr>))
      | Some f \<Rightarrow>
          (let path = cachepath w @ ''/'' @ url_filename url in
           (Some path,
            emit (Fetch url True)
              (w\<lparr>files := (files w)(path \<mapsto> f), fetches := Suc (fetches w)\<rparr>))))"

subsection \<open>The downloader\<close>

text \<open>The \<^verbatim>\<open>for\<close> loop of \<^verbatim>\<open>download_repo_files\<close> over the servers left to try.\<close>

fun download_loop :: "repo_t \<Rightarrow> string list \<Rightarrow> world \<Rightarrow> int \<times> world" where
  "download_loop repo [] w = (1, w)"
| "download_loop repo (server # rest) w =
     (let url = prepare_url server (name repo) (machine w) ''.files'';
          w1 = (if \<not> interactive w
                then emit (Stdout (''downloading '' @ name repo @ ''.files...'')) w
                else w);
          w2 = snd (unlink_files_dbfile (name repo) w1)
      in case alpm_fetch_pkgurl url w2 of
           (None, w3) \<Rightarrow>
             download_loop repo rest
               (emit (Stderr (''warning: failed to download: '' @ url @ [CHR 0x0A])) w3)
         | (Some path, w3) \<Rightarrow> (0, emit (Stdout [CHR 0x0A]) w3))"

definition download_repo_files :: "repo_t \<Rightarrow> world \<Rightarrow> int \<times> world" where
  "download_repo_files repo w = download_loop repo (servers repo) w"

subsection \<open>The transcoder\<close>

definition archive_read_open_filename :: "string \<Rightarrow> world \<Rightarrow> int \<times> archive_entry list" where
  "archive_read_open_filename path w =
     (case files w path of
        Some (Archive es) \<Rightarrow> (ARCHIVE_OK, es)
      | _ \<Rightarrow> (ARCHIVE_FATAL, []))"

definition write_item :: "string \<Rightarrow> item \<Rightarrow> world \<Rightarrow> world" where
  "write_item path it w =
     (case files w path of
        Some (Cpio its) \<Rightarrow> w\<lparr>files := (files w)(path \<mapsto> Cpio (its @ [it]))\<rparr>
      | _ \<Rightarrow> w\<lparr>files := (files w)(path \<mapsto> Cpio [it])\<rparr>)"

definition archive_write_open_filename :: "string \<Rightarrow> world \<Rightarrow> int \<times> world" where
  "archive_write_open_filename path w =
     (if write_ok w path 0
      then (ARCHIVE_OK, w\<lparr>files := (files w)(path \<mapsto> Cpio []), a_out := 1\<rparr>)
      else (ARCHIVE_FATAL, w\<lparr>a_out := 1\<rparr>))"

definition archive_write_header :: "string \<Rightarrow> archive_entry \<Rightarrow> world \<Rightarrow> int \<times> world" where
  "archive_write_header path ae w =
     (if write_ok w path (a_out w)
      then (ARCHIVE_OK, (write_item path (Header (header ae)) w)\<lparr>a_out := Suc (a_out w)\<rparr>)
      else (ARCHIVE_FATAL, w\<lparr>a_out := Suc (a_out w)\<rparr>))"

definition archive_write_data :: "string \<Rightarrow> string \<Rightarrow> world \<Rightarrow> int \<times> world" where
  "archive_write_data path buf w =
     (if write_ok w path (a_out w)
      then (int (length buf), (write_item path (Data buf) w)\<lparr>a_out := Suc (a_out w)\<rparr>)
      else (ARCHIVE_FATAL, w\<lparr>a_out := Suc (a_out w)\<rparr>))"

text \<open>
  The inner \<^verbatim>\<open>for(;;)\<close> loop over the data of one entry; the result is the flag
  \<^verbatim>\<open>done\<close> and the state.
\<close>

fun copy_data :: "string \<Rightarrow> string list \<Rightarrow> world \<Rightarrow> bool \<times> world" where
  "copy_data out [] w = (False, w)"
| "copy_data out (buf # rest) w =
     (if int (length buf) = 0 then (False, w)
      else
        (case archive_write_data out buf w of
           (n, w1) \<Rightarrow>
             if n \<noteq> int (length buf)
             then (True, emit (Stderr ''failed to write bytes to new files db'') w1)
             else copy_data out rest w1))"

text \<open>
  The \<^verbatim>\<open>while\<close> loop over the entries. Each \<^verbatim>\<open>break\<close> and the end of the
  archive leave the loop at the same place.
\<close>

fun copy_entries :: "string \<Rightarrow> archive_entry list \<Rightarrow> world \<Rightarrow> world" where
  "copy_entries out [] w = w"
| "copy_entries out (ae # rest) w =
     (case archive_write_header out ae w of
        (r, w1) \<Rightarrow>
          if r \<noteq> ARCHIVE_OK then emit (Stderr ''failed to write cpio header'') w1
          else
            (case copy_data out (blocks ae) w1 of
               (done, w2) \<Rightarrow> if done then w2 else copy_entries out rest w2))"

definition rename :: "string \<Rightarrow> string \<Rightarrow> world \<Rightarrow> int \<times> world" where
  "rename old new w =
     (case files w old of
        None \<Rightarrow> (- 1, emit (Rename old new False) w)
      | Some f \<Rightarrow>
          if rename_ok w old new
          then (0, emit (Rename old new True)
                     (w\<lparr>files := ((files w)(old := None))(new \<mapsto> f)\<rparr>))
          else (- 1, emit (Rename old new False) w))"

text \<open>
  \<^verbatim>\<open>decompress_repo_file\<close>. After the loop \<^verbatim>\<open>ret\<close> is set to 0, and at
  \<^verbatim>\<open>done:\<close> a \<^verbatim>\<open>ret\<close> of 0 has the temporary file renamed to the canonical one.
\<close>

definition decompress_repo_file :: "repo_t \<Rightarrow> world \<Rightarrow> int \<times> world" where
  "decompress_repo_file repo w =
     (let infilename = cache_file w (name repo) ''.files'';
          outfilename = cache_file w (name repo) ''.files~''
      in case archive_read_open_filename infilename w of
           (ret, a_in) \<Rightarrow>
             if ret \<noteq> ARCHIVE_OK
             then (ret, emit (Stderr (''failed to open file for writing: '' @ outfilename)) w)
             else
               (case archive_write_open_filename outfilename w of
                  (ret, w1) \<Rightarrow>
                    if ret \<noteq> ARCHIVE_OK
                    then (ret, emit (Stderr (''failed to open file for reading: '' @ infilename)) w1)
                    else
                      (let w2 = copy_entries outfilename a_in w1;
                           ret = 0
                       in case rename outfilename infilename w2 of
                            (r, w3) \<Rightarrow>
                              if r < 0
                              then (ret, emit (Stderr (''failed to rotate file for repo '' @ name repo
                                                        @ '' into place'')) w3)
                              else (ret, w3))))"

subsection \<open>The orchestrator\<close>

text \<open>The \<^verbatim>\<open>for\<close> loop of \<^verbatim>\<open>nosr_update\<close>, with the running \<^verbatim>\<open>ret\<close>.\<close>

fun update_loop :: "repo_t list \<Rightarrow> int \<Rightarrow> world \<Rightarrow> int \<times> world" where
  "update_loop [] ret w = (ret, w)"
| "update_loop (repo # rest) ret w =
     (case download_repo_files repo w of
        (r, w1) \<Rightarrow>
          (case (if r = 0 then decompress_repo_file repo w1 else (r, w1)) of
             (r, w2) \<Rightarrow> update_loop rest (if r \<noteq> 0 then r else ret) w2))"

definition nosr_update :: "repo_t list \<Rightarrow> world \<Rightarrow> int \<times> world" where
  "nosr_update repos w0 =
     (let w = w0\<lparr>interactive := isatty w0\<rparr> in
      if \<not> cache_writable w
      then (1, emit (Perror [])
                 (emit (Stderr (''error: unable to write to '' @ cachepath w @ '': '')) w))
      else if \<not> alpm_ok w
      then (1, emit (Stderr ''error: unable to initialize alpm'') w)
      else update_loop repos 0 w)"

subsection \<open>Templates as the specification describes them\<close>

text \<open>
  A template in the specification's terms: literal text interleaved with the tokens
  \<^verbatim>\<open>$arch\<close> and \<^verbatim>\<open>$repo\<close>. \<open>render\<close> gives the template string, \<open>expand\<close>
  the text each piece stands for; in a \<open>plain\<close> template the dollar sign occurs in the
  tokens only.
\<close>

datatype segment = Lit string | Arch_token | Repo_token

fun render :: "segment \<Rightarrow> string" where
  "render (Lit s) = s"
| "render Arch_token = ''$arch''"
| "render Repo_token = ''$repo''"

fun expand :: "string \<Rightarrow> string \<Rightarrow> segment \<Rightarrow> string" where
  "expand repo arch (Lit s) = s"
| "expand repo arch Arch_token = arch"
| "expand repo arch Repo_token = repo"

fun plain :: "segment \<Rightarrow> bool" where
  "plain (Lit s) \<longleftrightarrow> CHR ''$'' \<notin> set s"
| "plain Arch_token \<longleftrightarrow> True"
| "plain Repo_token \<longleftrightarrow> True"

text \<open>The template after the first pass of \<^verbatim>\<open>prepare_url\<close>.\<close>

fun expand_arch :: "string \<Rightarrow> segment \<Rightarrow> string" where
  "expand_arch arch (Lit s) = s"
| "expand_arch arch Arch_token = arch"
| "expand_arch arch Repo_token = ''$repo''"

subsection \<open>Reading a trace\<close>

text \<open>
  The URL \<^verbatim>\<open>download_repo_files\<close> builds for a server, and the events of one
  pass through its loop: the progress line when not interactive, the removal of the
  cached file, the fetch, and then a newline or the warning.
\<close>

definition server_url :: "repo_t \<Rightarrow> world \<Rightarrow> string \<Rightarrow> string" where
  "server_url repo w server = prepare_url server (name repo) (machine w) ''.files''"

definition attempt :: "repo_t \<Rightarrow> world \<Rightarrow> bool \<Rightarrow> string \<Rightarrow> event list" where
  "attempt repo w ok server =
     (if interactive w then [] else [Stdout (''downloading '' @ name repo @ ''.files...'')])
     @ [Unlink (cache_file w (name repo) ''.files''), Fetch (server_url repo w server) ok]
     @ (if ok then [Stdout [CHR 0x0A]]
        else [Stderr (''warning: failed to download: '' @ server_url repo w server @ [CHR 0x0A])])"

text \<open>
  The fetches in a trace with their outcomes, the lines written to \<^verbatim>\<open>stderr\<close>, the
  calls that touch the cache, and the events a run added to the trace.
\<close>

fun fetch_calls :: "event list \<Rightarrow> (string \<times> bool) list" where
  "fetch_calls [] = []"
| "fetch_calls (Fetch url ok # es) = (url, ok) # fetch_calls es"
| "fetch_calls (e # es) = fetch_calls es"

fun warnings :: "event list \<Rightarrow> string list" where
  "warnings [] = []"
| "warnings (Stderr msg # es) = msg # warnings es"
| "warnings (e # es) = warnings es"

fun syscalls :: "event list \<Rightarrow> event list" where
  "syscalls [] = []"
| "syscalls (Unlink path # es) = Unlink path # syscalls es"
| "syscalls (Fetch url ok # es) = Fetch url ok # syscalls es"
| "syscalls (e # es) = syscalls es"

definition new_events :: "world \<Rightarrow> world \<Rightarrow> event list" where
  "new_events w w' = drop (length (trace w)) (trace w')"

definition warning :: "string \<Rightarrow> string" where
  "warning url = ''warning: failed to download: '' @ url @ [CHR 0x0A]"

subsection \<open>Reading a configuration\<close>

text \<open>
  The section names of the header lines among the buffers of a file, in order; the
  part of the parser state that later lines depend on; and the repositories of a
  result.
\<close>

definition header_names :: "string list \<Rightarrow> string list" where
  "header_names bufs = map section_name (filter is_header (map strip_line bufs))"

definition view :: "parser \<Rightarrow> repo_t list \<times> bool" where
  "view st = (active_repos st, in_options st)"

definition repos_of :: "fault + parser \<Rightarrow> fault + repo_t list" where
  "repos_of res = map_sum id active_repos res"

text \<open>
  The lines of an included file that begin with \<^verbatim>\<open>Server\<close>, after comments and
  surrounding blanks are removed, and the values after their first \<^verbatim>\<open>=\<close>.
\<close>

definition server_lines :: "string \<Rightarrow> string list" where
  "server_lines contents =
     filter (\<lambda>l. take (length ''Server'') l = ''Server'') (map strip_line (read_lines contents))"

definition include_servers :: "string \<Rightarrow> string list" where
  "include_servers contents =
     map (\<lambda>l. strtrim (tl (dropWhile (\<lambda>c. c \<noteq> CHR ''='') l))) (server_lines contents)"

text \<open>The status each repository leaves in \<^verbatim>\<open>r\<close> during a run of the update loop.\<close>

fun stage_status :: "repo_t list \<Rightarrow> world \<Rightarrow> int list" where
  "stage_status [] w = []"
| "stage_status (repo # rest) w =
     (case download_repo_files repo w of
        (r, w1) \<Rightarrow>
          (case (if r = 0 then decompress_repo_file repo w1 else (r, w1)) of
             (r, w2) \<Rightarrow> r # stage_status rest w2))"

subsection \<open>Sample inputs\<close>

definition sample_archive :: "file" where
  "sample_archive =
     Archive [\<lparr>header = ''core/desc'', blocks = [''abc'', ''de'']\<rparr>,
              \<lparr>header = ''core/files'', blocks = [''xy'']\<rparr>]"

definition sample_world :: world where
  "sample_world =
     \<lparr>files = [''/var/cache/nosr/core.files'' \<mapsto> Cpio [Header ''stale'']],
      trace = [], cachepath = ''/var/cache/nosr'', machine = ''x86_64'',
      isatty = False, interactive = False, cache_writable = True, alpm_ok = True,
      net = (\<lambda>n url. if url = ''http://good/core/core.files'' then Some sample_archive else None),
      fetches = 0, write_ok = (\<lambda>path n. True), a_out = 0, rename_ok = (\<lambda>old new. True)\<rparr>"

definition sample_repo :: repo_t where
  "sample_repo = \<lparr>name = ''core'', servers = [''http://bad/$repo'', ''http://good/$repo'', ''http://unused'']\<rparr>"

definition down_repo :: repo_t where
  "down_repo = \<lparr>name = ''core'', servers = [''http://bad/$repo'', ''http://down/$repo/$arch'']\<rparr>"

definition empty_repo :: repo_t where
  "empty_repo = \<lparr>name = ''extra'', servers = []\<rparr>"

definition downloaded_world :: "(string \<Rightarrow> nat \<Rightarrow> bool) \<Rightarrow> world" where
  "downloaded_world disk =
     sample_world\<lparr>files := [''/var/cache/nosr/core.files'' \<mapsto> sample_archive],
                  write_ok := disk\<rparr>"

definition sample_mirrorlist :: string where
  "sample_mirrorlist = concat
     [''# mirrors'' @ [CHR 0x0A],
      ''Server = http://m1/$repo/os/$arch'' @ [CHR 0x0A],
      ''[ignored]'' @ [CHR 0x0A],
      ''Include = /etc/other'' @ [CHR 0x0A],
      ''Server=http://m2/$repo  # second'' @ [CHR 0x0A]]"

definition sample_before :: "string list" where
  "sample_before =
     [''[options]'' @ [CHR 0x0A],
      ''Server = http://ignored'' @ [CHR 0x0A],
      ''[core]'' @ [CHR 0x0A],
      ''Server = http://first/$repo'' @ [CHR 0x0A],
      ''Include = /etc/pacman.d/mirrorlist'' @ [CHR 0x0A],
      ''[extra]  # community'' @ [CHR 0x0A],
      ''Server = http://x/$repo'' @ [CHR 0x0A]]"

definition sample_after :: "string list" where
  "sample_after = [''Server = http://last/$repo/$arch'' @ [CHR 0x0A], ''[testing]'']"

definition missing_include :: string where
  "missing_include = ''Include = /etc/pacman.d/missing'' @ [CHR 0x0A]"

definition sample_conf :: string where
  "sample_conf = concat (sample_before @ missing_include # sample_after)"

definition sample_files :: "string \<rightharpoonup> string" where
  "sample_files =
     [''/etc/pacman.conf'' \<mapsto> sample_conf,
      ''/etc/pacman.d/mirrorlist'' \<mapsto> sample_mirrorlist]"

definition sample_parsed :: parser where
  "sample_parsed =
     \<lparr>active_repos =
        [\<lparr>name = ''core'',
          servers = [''http://first/$repo'', ''http://m1/$repo/os/$arch'', ''http://m2/$repo'']\<rparr>,
         \<lparr>name = ''extra'', servers = [''http://x/$repo'', ''http://last/$repo/$arch'']\<rparr>,
         \<lparr>name = ''testing'', servers = []\<rparr>],
      cur_section = Some ''testing'', in_options = False, errors = [Perror ''fopen'']\<rparr>"

definition core_section :: parser where
  "core_section =
     \<lparr>active_repos = [\<lparr>name = ''core'', servers = [''http://first/$repo'']\<rparr>],
      cur_section = Some ''core'', in_options = False, errors = []\<rparr>"

definition clash_conf :: string where
  "clash_conf = concat
     [''[]'' @ [CHR 0x0A],
      ''[core]'' @ [CHR 0x0A],
      ''Server = http://a/$repo'' @ [CHR 0x0A],
      ''[core]'' @ [CHR 0x0A]]"

definition prefix_files :: "string \<rightharpoonup> string" where
  "prefix_files =
     [''/etc/pacman.conf'' \<mapsto> ''[core]'' @ [CHR 0x0A] @ ''Include = /etc/mirrors'' @ [CHR 0x0A],
      ''/etc/mirrors'' \<mapsto> ''ServerList = http://m/$repo'' @ [CHR 0x0A]]"

definition bare_server_files :: "string \<rightharpoonup> string" where
  "bare_server_files =
     [''/etc/pacman.conf'' \<mapsto> ''[core]'' @ [CHR 0x0A] @ ''Include = /etc/mirrors'' @ [CHR 0x0A],
      ''/etc/mirrors'' \<mapsto> ''Server http://m/$repo'' @ [CHR 0x0A]]"

definition unserved_repo :: repo_t where
  "unserved_repo = \<lparr>name = ''core'', servers = []\<rparr>"

definition early_server_conf :: string where
  "early_server_conf =
     ''Server = http://mirror/$repo/os/$arch'' @ [CHR 0x0A] @ ''[core]'' @ [CHR 0x0A]"

section \<open>Properties\<close>

subsection \<open>URL templating\<close>

lemma strreplace_absent: "\<not> strstr s needle \<Longrightarrow> strreplace s needle rep = s"
  by (induction s) auto

lemma prepare_url_unguarded:
  "prepare_url url repo arch sfx =
     strreplace (strreplace url ''$arch'' arch) ''$repo'' repo @ ''/'' @ repo @ sfx"
  by (simp add: prepare_url_def Let_def strreplace_absent)

lemma strreplace_skip:
  "CHR ''$'' \<notin> set s \<Longrightarrow>
   strreplace (s @ t) (CHR ''$'' # n) rep = s @ strreplace t (CHR ''$'' # n) rep"
  by (induction s) auto

lemma strreplace_arch_arch:
  "strreplace (''$arch'' @ t) ''$arch'' rep = rep @ strreplace t ''$arch'' rep"
  by simp

lemma strreplace_repo_repo:
  "strreplace (''$repo'' @ t) ''$repo'' rep = rep @ strreplace t ''$repo'' rep"
  by simp

lemma strreplace_arch_repo:
  "strreplace (''$repo'' @ t) ''$arch'' rep = ''$repo'' @ strreplace t ''$arch'' rep"
  using strreplace_skip [of "''repo''" t "''arch''" rep] by simp

lemma pass_arch:
  "list_all plain segs \<Longrightarrow>
   strreplace (concat (map render segs) @ t) ''$arch'' arch =
     concat (map (expand_arch arch) segs) @ strreplace t ''$arch'' arch"
proof (induction segs)
  case Nil
  then show ?case by simp
next
  case (Cons a segs)
  show ?case
  proof (cases a)
    case (Lit s)
    with Cons show ?thesis
      using strreplace_skip [of s _ "''arch''" arch] by (simp del: strreplace.simps)
  next
    case Arch_token
    with Cons show ?thesis
      using strreplace_arch_arch by (simp del: strreplace.simps)
  next
    case Repo_token
    with Cons show ?thesis
      using strreplace_arch_repo by (simp del: strreplace.simps)
  qed
qed

lemma pass_repo:
  "list_all plain segs \<Longrightarrow> CHR ''$'' \<notin> set arch \<Longrightarrow>
   strreplace (concat (map (expand_arch arch) segs) @ t) ''$repo'' repo =
     concat (map (expand repo arch) segs) @ strreplace t ''$repo'' repo"
proof (induction segs)
  case Nil
  then show ?case by simp
next
  case (Cons a segs)
  show ?case
  proof (cases a)
    case (Lit s)
    with Cons show ?thesis
      using strreplace_skip [of s _ "''repo''" repo] by (simp del: strreplace.simps)
  next
    case Arch_token
    with Cons show ?thesis
      using strreplace_skip [of arch _ "''repo''" repo] by (simp del: strreplace.simps)
  next
    case Repo_token
    with Cons show ?thesis
      using strreplace_repo_repo by (simp del: strreplace.simps)
  qed
qed

text \<open>
  Claim C5. \<^verbatim>\<open>prepare_url\<close> replaces every occurrence of \<^verbatim>\<open>$arch\<close> by the
  architecture, then every occurrence of \<^verbatim>\<open>$repo\<close> by the repository name, and
  appends \<^verbatim>\<open>/<repo><suffix>\<close>, for every template, name, architecture and suffix.
  For a template built from literal text and tokens, where neither the text nor the
  architecture holds a dollar sign, the result is the text with every token replaced
  by what it stands for. The template \<^verbatim>\<open>https://example.org/$repo/os/$arch\<close> with
  \<^verbatim>\<open>core\<close>, \<^verbatim>\<open>x86_64\<close> and \<^verbatim>\<open>.files\<close> gives
  \<^verbatim>\<open>https://example.org/core/os/x86_64/core.files\<close>.
\<close>

theorem prepare_url_substitutes:
  "prepare_url url repo arch sfx =
     strreplace (strreplace url ''$arch'' arch) ''$repo'' repo @ ''/'' @ repo @ sfx
   \<and> (list_all plain segs \<and> CHR ''$'' \<notin> set arch \<longrightarrow>
        prepare_url (concat (map render segs)) repo arch sfx =
          concat (map (expand repo arch) segs) @ ''/'' @ repo @ sfx)
   \<and> prepare_url ''https://example.org/$repo/os/$arch'' ''core'' ''x86_64'' ''.files'' =
        ''https://example.org/core/os/x86_64/core.files''"
proof (intro conjI impI)
  show "prepare_url url repo arch sfx =
     strreplace (strreplace url ''$arch'' arch) ''$repo'' repo @ ''/'' @ repo @ sfx"
    by (rule prepare_url_unguarded)
next
  assume h: "list_all plain segs \<and> CHR ''$'' \<notin> set arch"
  then have "strreplace (concat (map render segs)) ''$arch'' arch =
      concat (map (expand_arch arch) segs)"
    using pass_arch [of segs "[]" arch] by simp
  moreover from h have "strreplace (concat (map (expand_arch arch) segs)) ''$repo'' repo =
      concat (map (expand repo arch) segs)"
    using pass_repo [of segs arch "[]" repo] by simp
  ultimately show "prepare_url (concat (map render segs)) repo arch sfx =
          concat (map (expand repo arch) segs) @ ''/'' @ repo @ sfx"
    by (simp add: prepare_url_unguarded)
next
  show "prepare_url ''https://example.org/$repo/os/$arch'' ''core'' ''x86_64'' ''.files'' =
        ''https://example.org/core/os/x86_64/core.files''"
    by (simp add: prepare_url_def)
qed

theorem prepare_url_substitutes_witness:
  "list_all plain [Lit ''http://mirror/'', Arch_token, Lit ''/'', Repo_token, Arch_token]
   \<and> CHR ''$'' \<notin> set ''i686''
   \<and> prepare_url ''http://mirror/$arch/$repo$arch'' ''extra'' ''i686'' ''.files'' =
        ''http://mirror/i686/extrai686/extra.files''"
  using prepare_url_substitutes [of "''http://mirror/$arch/$repo$arch''" "''extra''" "''i686''"
      "''.files''" "[Lit ''http://mirror/'', Arch_token, Lit ''/'', Repo_token, Arch_token]"]
  by simp

subsection \<open>The downloader\<close>

lemma attempt_cong:
  "interactive w' = interactive w \<Longrightarrow> machine w' = machine w \<Longrightarrow> cachepath w' = cachepath w \<Longrightarrow>
   attempt repo w' = attempt repo w"
  by (auto simp: attempt_def server_url_def cache_file_def fun_eq_iff)

lemma download_loop_trace:
  "download_loop repo ss w = (r, w') \<Longrightarrow>
   (r = 1 \<and> trace w' = trace w @ concat (map (attempt repo w False) ss)
      \<and> files w' = (if ss = [] then files w else (files w)(cache_file w (name repo) ''.files'' := None))
      \<and> fetches w' = fetches w + length ss)
   \<or> (r = 0 \<and> (\<exists>pre s post. ss = pre @ s # post \<and>
          trace w' = trace w @ concat (map (attempt repo w False) pre) @ attempt repo w True s))"
proof (induction ss arbitrary: w)
  case Nil
  then show ?case by simp
next
  case (Cons s ss)
  let ?url = "server_url repo w s"
  let ?w1 = "if \<not> interactive w then emit (Stdout (''downloading '' @ name repo @ ''.files...'')) w else w"
  let ?w2 = "snd (unlink_files_dbfile (name repo) ?w1)"
  show ?case
  proof (cases "net w (fetches w) ?url")
    case None
    let ?w4 = "emit (Stderr (''warning: failed to download: '' @ ?url @ [CHR 0x0A])) (emit (Fetch ?url False) (?w2\<lparr>fetches := Suc (fetches ?w2)\<rparr>))"
    from None Cons.prems have run: "download_loop repo ss ?w4 = (r, w')"
      by (simp add: Let_def alpm_fetch_pkgurl_def unlink_files_dbfile_def emit_def server_url_def split: if_splits)
    have same: "attempt repo ?w4 = attempt repo w"
      by (rule attempt_cong) (simp_all add: emit_def unlink_files_dbfile_def Let_def)
    have tr: "trace ?w4 = trace w @ attempt repo w False s"
      by (simp add: emit_def unlink_files_dbfile_def Let_def attempt_def cache_file_def)
    have fl: "files ?w4 = (files w)(cache_file w (name repo) ''.files'' := None)"
      by (simp add: emit_def unlink_files_dbfile_def Let_def cache_file_def)
    have cf: "cache_file ?w4 = cache_file w" 
      by (simp add: emit_def unlink_files_dbfile_def Let_def cache_file_def fun_eq_iff)
    have ft: "fetches ?w4 = Suc (fetches w)"
      by (simp add: emit_def unlink_files_dbfile_def Let_def)
    from Cons.IH [OF run] show ?thesis
    proof
      assume "r = 1 \<and> trace w' = trace ?w4 @ concat (map (attempt repo ?w4 False) ss)
      \<and> files w' = (if ss = [] then files ?w4 else (files ?w4)(cache_file ?w4 (name repo) ''.files'' := None))
      \<and> fetches w' = fetches ?w4 + length ss"
      then show ?thesis unfolding same tr fl cf ft by auto
    next
      assume "r = 0 \<and> (\<exists>pre s post. ss = pre @ s # post \<and>
          trace w' = trace ?w4 @ concat (map (attempt repo ?w4 False) pre) @ attempt repo ?w4 True s)"
      then obtain pre s' post where "r = 0" "ss = pre @ s' # post"
         "trace w' = trace w @ concat (map (attempt repo w False) (s # pre)) @ attempt repo w True s'"
        unfolding same tr by auto
      then have "s # ss = (s # pre) @ s' # post \<and>
          trace w' = trace w @ concat (map (attempt repo w False) (s # pre)) @ attempt repo w True s'"
        by simp
      with \<open>r = 0\<close> show ?thesis by blast
    qed
  next
    case (Some f)
    with Cons.prems have "r = 0" and "trace w' = trace w @ attempt repo w True s"
      by (auto simp add: Let_def alpm_fetch_pkgurl_def unlink_files_dbfile_def emit_def server_url_def attempt_def cache_file_def split: if_splits)
    then have "s # ss = [] @ s # ss \<and> trace w' = trace w @ concat (map (attempt repo w False) []) @ attempt repo w True s"
      by simp
    with \<open>r = 0\<close> show ?thesis by blast
  qed
qed

lemma fetch_calls_append: "fetch_calls (xs @ ys) = fetch_calls xs @ fetch_calls ys"
  by (induction xs rule: fetch_calls.induct) simp_all

lemma warnings_append: "warnings (xs @ ys) = warnings xs @ warnings ys"
  by (induction xs rule: warnings.induct) simp_all

lemma syscalls_append: "syscalls (xs @ ys) = syscalls xs @ syscalls ys"
  by (induction xs rule: syscalls.induct) simp_all

lemma fetch_calls_attempt: "fetch_calls (attempt repo w ok s) = [(server_url repo w s, ok)]"
  by (simp add: attempt_def fetch_calls_append)

lemma warnings_attempt:
  "warnings (attempt repo w ok s) = (if ok then [] else [warning (server_url repo w s)])"
  by (simp add: attempt_def warnings_append warning_def)

lemma syscalls_attempt:
  "syscalls (attempt repo w ok s) =
     [Unlink (cache_file w (name repo) ''.files''), Fetch (server_url repo w s) ok]"
  by (simp add: attempt_def syscalls_append)

lemma fetch_calls_failed:
  "fetch_calls (concat (map (attempt repo w False) ss)) = map (\<lambda>s. (server_url repo w s, False)) ss"
  by (induction ss) (simp_all add: fetch_calls_append fetch_calls_attempt)

lemma warnings_failed:
  "warnings (concat (map (attempt repo w False) ss)) = map (\<lambda>s. warning (server_url repo w s)) ss"
  by (induction ss) (simp_all add: warnings_append warnings_attempt)

lemma syscalls_failed:
  "syscalls (concat (map (attempt repo w False) ss)) =
     concat (map (\<lambda>s. [Unlink (cache_file w (name repo) ''.files''), Fetch (server_url repo w s) False]) ss)"
  by (induction ss) (simp_all add: syscalls_append syscalls_attempt)

text \<open>The definitions that evaluate a run on the sample inputs.\<close>

lemmas run_simps =
  download_repo_files_def decompress_repo_file_def nosr_update_def Let_def prepare_url_def
  unlink_files_dbfile_def alpm_fetch_pkgurl_def emit_def cache_file_def PATH_MAX_def
  url_filename_def new_events_def archive_read_open_filename_def archive_write_open_filename_def
  archive_write_header_def archive_write_data_def write_item_def rename_def
  ARCHIVE_OK_def ARCHIVE_FATAL_def
  sample_archive_def sample_world_def sample_repo_def down_repo_def empty_repo_def

text \<open>
  Claim C4. The fetches of \<^verbatim>\<open>download_repo_files\<close> are for an initial stretch of
  the repository's servers, in configuration order and one fetch for each; every
  failed fetch is followed by a warning that names its URL; a successful fetch is the
  last one; and the result is 0 exactly when a fetch succeeded, otherwise it is 1 and
  every server has been tried.
\<close>

theorem download_repo_files_fallback:
  assumes "download_repo_files repo w = (r, w')"
  shows "map fst (fetch_calls (new_events w w')) =
           take (length (fetch_calls (new_events w w'))) (map (server_url repo w) (servers repo))
       \<and> (r = 0 \<longleftrightarrow> True \<in> set (map snd (fetch_calls (new_events w w'))))
       \<and> (if r = 0
          then map snd (fetch_calls (new_events w w')) =
                 replicate (length (fetch_calls (new_events w w')) - 1) False @ [True]
          else r = 1 \<and> map snd (fetch_calls (new_events w w')) =
                 replicate (length (servers repo)) False)
       \<and> warnings (new_events w w') =
           map warning (map fst (filter (\<lambda>c. \<not> snd c) (fetch_calls (new_events w w'))))"
proof -
  from assms have "download_loop repo (servers repo) w = (r, w')"
    by (simp add: download_repo_files_def)
  from download_loop_trace [OF this] show ?thesis
  proof
    assume a: "r = 1 \<and> trace w' = trace w @ concat (map (attempt repo w False) (servers repo))
      \<and> files w' = (if servers repo = [] then files w
                     else (files w)(cache_file w (name repo) ''.files'' := None))
      \<and> fetches w' = fetches w + length (servers repo)"
    then have "new_events w w' = concat (map (attempt repo w False) (servers repo))"
      by (simp add: new_events_def)
    with a show ?thesis
      by (simp add: fetch_calls_failed warnings_failed comp_def map_replicate_const)
  next
    assume "r = 0 \<and> (\<exists>pre s post. servers repo = pre @ s # post \<and>
          trace w' = trace w @ concat (map (attempt repo w False) pre) @ attempt repo w True s)"
    then obtain pre s post where r: "r = 0" and ss: "servers repo = pre @ s # post"
      and "trace w' = trace w @ concat (map (attempt repo w False) pre) @ attempt repo w True s"
      by blast
    then have "new_events w w' = concat (map (attempt repo w False) pre) @ attempt repo w True s"
      by (simp add: new_events_def)
    with r ss show ?thesis
      by (simp add: fetch_calls_append fetch_calls_failed fetch_calls_attempt
          warnings_append warnings_failed warnings_attempt comp_def map_replicate_const)
  qed
qed

theorem download_repo_files_fallback_witness:
  "fst (download_repo_files sample_repo sample_world) = 0
   \<and> fetch_calls (new_events sample_world (snd (download_repo_files sample_repo sample_world))) =
       [(''http://bad/core/core.files'', False), (''http://good/core/core.files'', True)]
   \<and> warnings (new_events sample_world (snd (download_repo_files sample_repo sample_world))) =
       [''warning: failed to download: http://bad/core/core.files'' @ [CHR 0x0A]]"
proof -
  have run: "download_repo_files sample_repo sample_world =
      (fst (download_repo_files sample_repo sample_world),
       snd (download_repo_files sample_repo sample_world))"
    by simp
  have r: "fst (download_repo_files sample_repo sample_world) = 0"
    by (simp add: run_simps)
  have calls: "fetch_calls (new_events sample_world
        (snd (download_repo_files sample_repo sample_world))) =
       [(''http://bad/core/core.files'', False), (''http://good/core/core.files'', True)]"
    by (simp add: run_simps)
  from download_repo_files_fallback [OF run] r calls show ?thesis
    by (simp add: warning_def)
qed

text \<open>
  Claim C8, amended. Every fetch of \<^verbatim>\<open>download_repo_files\<close> comes directly after
  a removal of the repository's cached \<^verbatim>\<open>.files\<close> file, the first fetch and every
  later one; so when the repository has at least one server and every fetch fails, the
  cache holds no file for it afterwards. For a repository with no server nothing is
  fetched or removed, and the cache is left as it was.
\<close>

theorem download_unlinks_before_each_fetch:
  assumes "download_repo_files repo w = (r, w')"
  shows "syscalls (new_events w w') =
           concat (map (\<lambda>c. [Unlink (cache_file w (name repo) ''.files''), Fetch (fst c) (snd c)])
                    (fetch_calls (new_events w w')))
       \<and> (servers repo \<noteq> [] \<and> r \<noteq> 0 \<longrightarrow> files w' (cache_file w (name repo) ''.files'') = None)
       \<and> (servers repo = [] \<longrightarrow> files w' = files w \<and> syscalls (new_events w w') = [])"
proof -
  from assms have "download_loop repo (servers repo) w = (r, w')"
    by (simp add: download_repo_files_def)
  from download_loop_trace [OF this] show ?thesis
  proof
    assume a: "r = 1 \<and> trace w' = trace w @ concat (map (attempt repo w False) (servers repo))
      \<and> files w' = (if servers repo = [] then files w
                     else (files w)(cache_file w (name repo) ''.files'' := None))
      \<and> fetches w' = fetches w + length (servers repo)"
    then have "new_events w w' = concat (map (attempt repo w False) (servers repo))"
      by (simp add: new_events_def)
    with a show ?thesis
      by (simp add: fetch_calls_failed syscalls_failed comp_def)
  next
    assume "r = 0 \<and> (\<exists>pre s post. servers repo = pre @ s # post \<and>
          trace w' = trace w @ concat (map (attempt repo w False) pre) @ attempt repo w True s)"
    then obtain pre s post where r: "r = 0" and ss: "servers repo = pre @ s # post"
      and "trace w' = trace w @ concat (map (attempt repo w False) pre) @ attempt repo w True s"
      by blast
    then have "new_events w w' = concat (map (attempt repo w False) pre) @ attempt repo w True s"
      by (simp add: new_events_def)
    with r ss show ?thesis
      by (simp add: fetch_calls_append fetch_calls_failed fetch_calls_attempt
          syscalls_append syscalls_failed syscalls_attempt comp_def)
  qed
qed


theorem download_unlinks_before_each_fetch_witness:
  "servers down_repo \<noteq> []
   \<and> fst (download_repo_files down_repo sample_world) \<noteq> 0
   \<and> files sample_world ''/var/cache/nosr/core.files'' = Some (Cpio [Header ''stale''])
   \<and> files (snd (download_repo_files down_repo sample_world)) ''/var/cache/nosr/core.files'' = None
   \<and> syscalls (new_events sample_world (snd (download_repo_files down_repo sample_world))) =
       [Unlink ''/var/cache/nosr/core.files'', Fetch ''http://bad/core/core.files'' False,
        Unlink ''/var/cache/nosr/core.files'', Fetch ''http://down/core/x86_64/core.files'' False]"
proof -
  have run: "download_repo_files down_repo sample_world =
      (fst (download_repo_files down_repo sample_world),
       snd (download_repo_files down_repo sample_world))"
    by simp
  have ne: "servers down_repo \<noteq> []"
    by (simp add: down_repo_def)
  have r: "fst (download_repo_files down_repo sample_world) \<noteq> 0"
    by (simp add: run_simps)
  have path: "cache_file sample_world (name down_repo) ''.files'' = ''/var/cache/nosr/core.files''"
    by (simp add: run_simps)
  have old: "files sample_world ''/var/cache/nosr/core.files'' = Some (Cpio [Header ''stale''])"
    by (simp add: sample_world_def)
  have calls: "fetch_calls (new_events sample_world
        (snd (download_repo_files down_repo sample_world))) =
       [(''http://bad/core/core.files'', False), (''http://down/core/x86_64/core.files'', False)]"
    by (simp add: run_simps)
  from download_unlinks_before_each_fetch [OF run] ne r path old calls show ?thesis
    by simp
qed

text \<open>
  Without the condition on the servers the consequence fails: for a repository named
  \<^verbatim>\<open>core\<close> with no server, every server has failed, the result is 1, and the file
  cached for it is still there.
\<close>

theorem download_unlinks_before_each_fetch_counterexample:
  "servers unserved_repo = []
   \<and> download_repo_files unserved_repo sample_world = (1, sample_world)
   \<and> cache_file sample_world (name unserved_repo) ''.files'' = ''/var/cache/nosr/core.files''
   \<and> files sample_world ''/var/cache/nosr/core.files'' = Some (Cpio [Header ''stale''])"
  by (simp add: unserved_repo_def download_repo_files_def cache_file_def PATH_MAX_def
      sample_world_def)

subsection \<open>A repository without servers\<close>

lemma update_loop_sticky: "ret \<noteq> 0 \<Longrightarrow> fst (update_loop rs ret w) \<noteq> 0"
  by (induction rs arbitrary: ret w) (auto split: prod.splits)

lemma download_no_servers: "servers repo = [] \<Longrightarrow> download_repo_files repo w = (1, w)"
  by (simp add: download_repo_files_def)

lemma update_loop_no_servers:
  "repo \<in> set rs \<Longrightarrow> servers repo = [] \<Longrightarrow> fst (update_loop rs ret w) \<noteq> 0"
proof (induction rs arbitrary: ret w)
  case Nil
  then show ?case by simp
next
  case (Cons a rs)
  show ?case
  proof (cases "a = repo")
    case True
    with Cons.prems show ?thesis
      by (simp add: download_no_servers update_loop_sticky)
  next
    case False
    with Cons.prems have "repo \<in> set rs" by simp
    from Cons.IH [OF this Cons.prems(2)] show ?thesis
      by (simp split: prod.splits)
  qed
qed

text \<open>
  Claim C10. For a repository with no server \<^verbatim>\<open>download_repo_files\<close> returns 1 and
  leaves the state as it was: nothing is fetched and nothing removed. The loop of
  \<^verbatim>\<open>nosr_update\<close> goes on to the next repository with \<^verbatim>\<open>ret\<close> set to 1 and
  without transcoding, and a run over repositories that include it returns non-zero.
\<close>

theorem no_servers_fails:
  assumes "servers repo = []"
  shows "download_repo_files repo w = (1, w)
       \<and> update_loop (repo # rest) ret w = update_loop rest 1 w
       \<and> (repo \<in> set repos \<longrightarrow> fst (nosr_update repos w) \<noteq> 0)"
proof (intro conjI impI)
  from assms show d: "download_repo_files repo w = (1, w)"
    by (rule download_no_servers)
  then show "update_loop (repo # rest) ret w = update_loop rest 1 w"
    by simp
  assume "repo \<in> set repos"
  with assms show "fst (nosr_update repos w) \<noteq> 0"
    by (simp add: nosr_update_def Let_def update_loop_no_servers)
qed

theorem no_servers_fails_witness:
  "servers empty_repo = []
   \<and> empty_repo \<in> set [empty_repo, sample_repo]
   \<and> download_repo_files empty_repo sample_world = (1, sample_world)
   \<and> fst (nosr_update [empty_repo, sample_repo] sample_world) \<noteq> 0
   \<and> fst (nosr_update [sample_repo] sample_world) = 0"
proof -
  have e: "servers empty_repo = []"
    by (simp add: empty_repo_def)
  have ok: "fst (nosr_update [sample_repo] sample_world) = 0"
    by (simp add: run_simps)
  from no_servers_fails [OF e, of sample_world "[]" 0 "[empty_repo, sample_repo]"] e ok
  show ?thesis by simp
qed

subsection \<open>The status of a run\<close>

lemma update_loop_status:
  "(fst (update_loop repos ret w) = 0 \<longleftrightarrow> ret = 0 \<and> (\<forall>r\<in>set (stage_status repos w). r = 0))
   \<and> length (stage_status repos w) = length repos"
proof (induction repos arbitrary: ret w)
  case Nil
  show ?case by simp
next
  case (Cons repo repos)
  obtain r1 w1 where d: "download_repo_files repo w = (r1, w1)"
    by (cases "download_repo_files repo w")
  obtain r2 w2 where t: "(if r1 = 0 then decompress_repo_file repo w1 else (r1, w1)) = (r2, w2)"
    by (cases "if r1 = 0 then decompress_repo_file repo w1 else (r1, w1)")
  from d t have loop: "update_loop (repo # repos) ret w =
      update_loop repos (if r2 \<noteq> 0 then r2 else ret) w2"
    by simp
  from d t have stat: "stage_status (repo # repos) w = r2 # stage_status repos w2"
    by simp
  from Cons.IH [of "if r2 \<noteq> 0 then r2 else ret" w2] show ?case
    unfolding loop stat by auto
qed

subsection \<open>A write failure during the transcode\<close>

text \<open>
  Once both archives are open the result of \<^verbatim>\<open>decompress_repo_file\<close> is 0 and the
  temporary file is renamed, whatever the writer answered during the copy.
\<close>

lemma decompress_status_once_open:
  assumes "files w (cache_file w (name repo) ''.files'') = Some (Archive es)"
    and "write_ok w (cache_file w (name repo) ''.files~'') 0"
  shows "fst (decompress_repo_file repo w) = 0"
  using assms
  by (simp add: decompress_repo_file_def Let_def archive_read_open_filename_def
      archive_write_open_filename_def ARCHIVE_OK_def split: prod.splits)

text \<open>
  Claim C1. The claim is that a header-write or data-write failure makes
  \<^verbatim>\<open>decompress_repo_file\<close> report failure, leave \<^verbatim>\<open><name>.files\<close> as it was and
  discard \<^verbatim>\<open><name>.files~\<close>. Evaluated on an archive of two entries where the
  writer fails at the first data block, and again where it fails at the first header:
  both \<^verbatim>\<open>break\<close>s lead to \<^verbatim>\<open>ret = 0\<close>, the function returns 0, and the
  temporary file, holding what was written before the failure, is renamed over the
  downloaded archive.
\<close>

theorem write_failure_rotates_partial_file:
  "fst (decompress_repo_file sample_repo (downloaded_world (\<lambda>path n. n < 2))) = 0
   \<and> files (snd (decompress_repo_file sample_repo (downloaded_world (\<lambda>path n. n < 2))))
        ''/var/cache/nosr/core.files'' = Some (Cpio [Header ''core/desc''])
   \<and> files (snd (decompress_repo_file sample_repo (downloaded_world (\<lambda>path n. n < 2))))
        ''/var/cache/nosr/core.files~'' = None
   \<and> trace (snd (decompress_repo_file sample_repo (downloaded_world (\<lambda>path n. n < 2)))) =
        [Stderr ''failed to write bytes to new files db'',
         Rename ''/var/cache/nosr/core.files~'' ''/var/cache/nosr/core.files'' True]
   \<and> fst (decompress_repo_file sample_repo (downloaded_world (\<lambda>path n. n < 1))) = 0
   \<and> files (snd (decompress_repo_file sample_repo (downloaded_world (\<lambda>path n. n < 1))))
        ''/var/cache/nosr/core.files'' = Some (Cpio [])
   \<and> trace (snd (decompress_repo_file sample_repo (downloaded_world (\<lambda>path n. n < 1)))) =
        [Stderr ''failed to write cpio header'',
         Rename ''/var/cache/nosr/core.files~'' ''/var/cache/nosr/core.files'' True]"
  by (simp add: run_simps downloaded_world_def)

text \<open>
  Claim C2. The claim is that \<^verbatim>\<open>nosr_update\<close> returns zero exactly when every
  repository was downloaded and transcoded. The loop does return the last non-zero
  status and zero when there is none (\<open>update_loop_status\<close>), but a transcode that
  stops at a failed write has status 0: evaluated on one repository whose second
  server delivers the archive and whose first data block cannot be written, the run
  returns 0 with the partial file in the cache.
\<close>

theorem update_succeeds_on_write_failure:
  "fst (nosr_update [sample_repo] (sample_world\<lparr>write_ok := \<lambda>path n. n < 2\<rparr>)) = 0
   \<and> stage_status [sample_repo] (sample_world\<lparr>write_ok := \<lambda>path n. n < 2\<rparr>) = [0]
   \<and> files (snd (nosr_update [sample_repo] (sample_world\<lparr>write_ok := \<lambda>path n. n < 2\<rparr>)))
        ''/var/cache/nosr/core.files'' = Some (Cpio [Header ''core/desc''])
   \<and> warnings (trace (snd (nosr_update [sample_repo] (sample_world\<lparr>write_ok := \<lambda>path n. n < 2\<rparr>)))) =
        [''warning: failed to download: http://bad/core/core.files'' @ [CHR 0x0A],
         ''failed to write bytes to new files db'']"
  by (simp add: run_simps)

subsection \<open>The configuration parser\<close>

lemma strtrim_keeps_head:
  assumes "\<not> isspace c"
  shows "\<exists>t. strtrim (c # s) = c # t"
proof (cases "\<forall>x\<in>set (rev s). isspace x")
  case True
  with assms have "dropWhile isspace (rev s @ [c]) = [c]"
    by (simp add: dropWhile_append)
  with assms show ?thesis by (simp add: strtrim_def)
next
  case False
  with assms have "dropWhile isspace (rev s @ [c]) = dropWhile isspace (rev s) @ [c]"
    by (simp add: dropWhile_append)
  with assms show ?thesis by (simp add: strtrim_def)
qed

lemma header_key: "is_header line \<Longrightarrow> \<exists>t. line_key line = CHR ''['' # t"
proof -
  assume "is_header line"
  then obtain l where "line = CHR ''['' # l"
    by (cases line) (auto simp: is_header_def)
  then have "takeWhile (\<lambda>c. c \<noteq> CHR ''='') line = CHR ''['' # takeWhile (\<lambda>c. c \<noteq> CHR ''='') l"
    by simp
  moreover have "\<not> isspace CHR ''[''" by (simp add: isspace_def)
  ultimately show ?thesis
    using strtrim_keeps_head [of "CHR ''[''"] by (simp add: line_key_def)
qed

lemma header_not_directive:
  "is_header line \<Longrightarrow> line_key line \<noteq> ''Server'' \<and> line_key line \<noteq> ''Include''"
  using header_key [of line] by auto

lemma header_key_value: "is_header line \<Longrightarrow> key_value fs st line = Inr st"
  using header_not_directive [of line] by (simp add: key_value_def Let_def)

lemma repo_add_server_name:
  "repo_add_server (Some r) v = Inr (i, repo') \<Longrightarrow> \<exists>r'. repo' = Some r' \<and> name r' = name r"
  by (auto simp: repo_add_server_def split: option.splits)

lemma include_loop_name:
  "include_loop (Some r) bufs = Inr repo' \<Longrightarrow> \<exists>r'. repo' = Some r' \<and> name r' = name r"
proof (induction bufs arbitrary: r)
  case Nil
  then show ?case by auto
next
  case (Cons buf bufs)
  show ?case
  proof (cases "strip_line buf \<noteq> [] \<and> take (length ''Server'') (strip_line buf) = ''Server''")
    case True
    with Cons.prems obtain i mid where
      add: "repo_add_server (Some r) (line_get_val (strip_line buf)) = Inr (i, mid)"
      and rest: "include_loop mid bufs = Inr repo'"
      by (auto simp: Let_def split: sum.splits)
    from repo_add_server_name [OF add] obtain r1 where "mid = Some r1" "name r1 = name r"
      by blast
    with Cons.IH [of r1] rest show ?thesis by auto
  next
    case False
    with Cons.prems have "include_loop (Some r) bufs = Inr repo'"
      by (auto simp: Let_def split: if_splits)
    from Cons.IH [OF this] show ?thesis .
  qed
qed

lemma store_current_names:
  "active_repos st \<noteq> [] \<Longrightarrow> name r' = name (last (active_repos st)) \<Longrightarrow>
   map name (active_repos (store_current st (Some r'))) = map name (active_repos st)"
proof -
  assume ne: "active_repos st \<noteq> []" and n: "name r' = name (last (active_repos st))"
  have "map name (butlast (active_repos st) @ [r']) =
        map name (butlast (active_repos st) @ [last (active_repos st)])"
    using n by simp
  with ne show ?thesis by (simp add: store_current_def)
qed

lemma key_value_names:
  "key_value fs st line = Inr st' \<Longrightarrow> map name (active_repos st') = map name (active_repos st)"
proof -
  assume kv: "key_value fs st line = Inr st'"
  consider (srv) "line_key line = ''Server''"
    | (inc) "line_key line \<noteq> ''Server''" "line_key line = ''Include''"
    | (other) "line_key line \<noteq> ''Server''" "line_key line \<noteq> ''Include''"
    by blast
  then show ?thesis
  proof cases
    case srv
    with kv obtain i repo' where ne: "active_repos st \<noteq> []"
      and add: "repo_add_server (Some (last (active_repos st))) (line_get_val line) = Inr (i, repo')"
      and st': "st' = store_current st repo'"
      by (auto simp: key_value_def Let_def current_repo_def split: if_splits sum.splits)
    from repo_add_server_name [OF add] obtain r' where "repo' = Some r'"
      "name r' = name (last (active_repos st))" by blast
    with ne st' show ?thesis by (simp add: store_current_names)
  next
    case inc
    with kv obtain i repo' msgs where ne: "active_repos st \<noteq> []"
      and inc: "add_servers_from_include fs (Some (last (active_repos st))) (line_get_val line)
                  = Inr (i, repo', msgs)"
      and st': "st' = (store_current st repo')\<lparr>errors := errors st @ msgs\<rparr>"
      by (auto simp: key_value_def Let_def current_repo_def split: if_splits sum.splits)
    from inc have "\<exists>r'. repo' = Some r' \<and> name r' = name (last (active_repos st))"
      by (auto simp: add_servers_from_include_def split: option.splits sum.splits
          dest: include_loop_name)
    then obtain r' where "repo' = Some r'" "name r' = name (last (active_repos st))" by blast
    with ne st' show ?thesis by (simp add: store_current_names)
  next
    case other
    with kv show ?thesis by (simp add: key_value_def Let_def)
  qed
qed

lemma process_line_names:
  "process_line fs st buf = Inr st' \<Longrightarrow>
   map name (active_repos st') = map name (active_repos st) @
     filter (\<lambda>s. s \<noteq> ''options'') (header_names [buf])"
proof -
  assume pl: "process_line fs st buf = Inr st'"
  let ?line = "strip_line buf"
  show ?thesis
  proof (cases "is_header ?line")
    case True
    then have "?line \<noteq> []" by (simp add: is_header_def)
    with True pl show ?thesis
      by (auto simp: process_line_def Let_def header_names_def header_key_value repo_new_def
          split: if_splits)
  next
    case False
    with pl show ?thesis
      by (auto simp: process_line_def Let_def header_names_def split: if_splits
          dest: key_value_names)
  qed
qed

lemma parse_lines_names:
  "parse_lines fs st bufs = Inr st' \<Longrightarrow>
   map name (active_repos st') = map name (active_repos st) @
     filter (\<lambda>s. s \<noteq> ''options'') (header_names bufs)"
proof (induction bufs arbitrary: st)
  case Nil
  then show ?case by (simp add: header_names_def)
next
  case (Cons buf bufs)
  then obtain st1 where one: "process_line fs st buf = Inr st1"
    and rest: "parse_lines fs st1 bufs = Inr st'"
    by (auto split: sum.splits)
  have "header_names (buf # bufs) = header_names [buf] @ header_names bufs"
    by (simp add: header_names_def)
  with process_line_names [OF one] Cons.IH [OF rest] show ?case by simp
qed

lemma empty_section_name: "is_header line \<Longrightarrow> section_name line = [] \<Longrightarrow> line = ''[]''"
proof -
  assume h: "is_header line" and e: "section_name line = []"
  from h obtain l where line: "line = CHR ''['' # l" 
    by (cases line) (auto simp: is_header_def)
  with h have "l \<noteq> []" by (auto simp: is_header_def)
  with e line have "length l = 1" by (cases l) (auto simp: section_name_def)
  then obtain c where "l = [c]" by (cases l) auto
  with h line show ?thesis by (simp add: is_header_def)
qed

text \<open>
  Claim C7, amended. The names of the repositories \<^verbatim>\<open>find_active_repos\<close> produces
  are, in order, the section names of the file's header lines other than
  \<^verbatim>\<open>[options]\<close>. So no name is empty provided the file has no header line
  \<^verbatim>\<open>[]\<close>, and no two repositories share a name provided no two header lines carry
  the same section name.
\<close>

theorem repository_names:
  assumes "fs filename = Some contents" and "find_active_repos fs filename = Inr st"
  shows "map name (active_repos st) =
           filter (\<lambda>s. s \<noteq> ''options'') (header_names (read_lines contents))
       \<and> (''[]'' \<notin> set (map strip_line (read_lines contents)) \<longrightarrow>
            [] \<notin> set (map name (active_repos st)))
       \<and> (distinct (header_names (read_lines contents)) \<longrightarrow>
            distinct (map name (active_repos st)))"
proof -
  from assms have "parse_lines fs parser_init (read_lines contents) = Inr st"
    by (simp add: find_active_repos_def)
  from parse_lines_names [OF this]
  have names: "map name (active_repos st) =
      filter (\<lambda>s. s \<noteq> ''options'') (header_names (read_lines contents))"
    by (simp add: parser_init_def)
  have "[] \<notin> set (header_names (read_lines contents))"
    if "''[]'' \<notin> set (map strip_line (read_lines contents))"
  proof
    assume "[] \<in> set (header_names (read_lines contents))"
    then obtain l where "l \<in> set (map strip_line (read_lines contents))"
      and "is_header l" and "section_name l = []"
      unfolding header_names_def by force
    with empty_section_name [of l] that show False by simp
  qed
  then have "''[]'' \<notin> set (map strip_line (read_lines contents)) \<longrightarrow>
            [] \<notin> set (map name (active_repos st))"
    unfolding names by simp
  moreover have "distinct (header_names (read_lines contents)) \<longrightarrow>
            distinct (map name (active_repos st))"
    unfolding names by simp
  ultimately show ?thesis using names by blast
qed

theorem repository_names_witness:
  "sample_files ''/etc/pacman.conf'' = Some sample_conf
   \<and> find_active_repos sample_files ''/etc/pacman.conf'' = Inr sample_parsed
   \<and> ''[]'' \<notin> set (map strip_line (read_lines sample_conf))
   \<and> distinct (header_names (read_lines sample_conf))
   \<and> map name (active_repos sample_parsed) = [''core'', ''extra'', ''testing'']
   \<and> [] \<notin> set (map name (active_repos sample_parsed))
   \<and> distinct (map name (active_repos sample_parsed))"
proof -
  have f: "sample_files ''/etc/pacman.conf'' = Some sample_conf"
    by (simp add: sample_files_def)
  have p: "find_active_repos sample_files ''/etc/pacman.conf'' = Inr sample_parsed"
    by code_simp
  have e: "''[]'' \<notin> set (map strip_line (read_lines sample_conf))"
    by code_simp
  have h: "header_names (read_lines sample_conf) = [''options'', ''core'', ''extra'', ''testing'']"
    by code_simp
  from repository_names [where fs = sample_files, OF f p] f p e h show ?thesis by simp
qed

text \<open>
  A file with the header \<^verbatim>\<open>[]\<close> and two headers \<^verbatim>\<open>[core]\<close> is accepted: it
  gives a repository with the empty name and two repositories named \<^verbatim>\<open>core\<close>.
\<close>

theorem repository_names_counterexample:
  "find_active_repos [''/etc/pacman.conf'' \<mapsto> clash_conf] ''/etc/pacman.conf'' =
     Inr \<lparr>active_repos =
            [\<lparr>name = [], servers = []\<rparr>,
             \<lparr>name = ''core'', servers = [''http://a/$repo'']\<rparr>,
             \<lparr>name = ''core'', servers = []\<rparr>],
          cur_section = Some ''core'', in_options = False, errors = []\<rparr>"
  by code_simp

text \<open>A line with any other key, wherever it stands, leaves the parser state as it was.\<close>

lemma other_key_discarded:
  assumes "\<not> is_header (strip_line buf)"
    and "line_key (strip_line buf) \<noteq> ''Server''"
    and "line_key (strip_line buf) \<noteq> ''Include''"
  shows "process_line fs st buf = Inr st"
  using assms by (simp add: process_line_def key_value_def Let_def)

text \<open>
  Claim C3. The claim is that a \<^verbatim>\<open>key=value\<close> line before any section header is
  discarded without an access outside the repository array. For the keys
  \<^verbatim>\<open>Server\<close> and \<^verbatim>\<open>Include\<close> the parser evaluates
  \<^verbatim>\<open>active_repos[*repocount - 1]\<close> with a count of 0, before the \<^verbatim>\<open>NULL\<close> test
  of \<^verbatim>\<open>repo_add_server\<close> can be reached: a file that starts with a
  \<^verbatim>\<open>Server\<close> line, and either directive as the first line, end in that read.
\<close>

theorem section_less_server_faults:
  "find_active_repos [''/etc/pacman.conf'' \<mapsto> early_server_conf] ''/etc/pacman.conf'' =
     Inl Out_of_bounds_read
   \<and> process_line Map.empty parser_init (''Server = http://mirror/$repo/os/$arch'' @ [CHR 0x0A]) =
     Inl Out_of_bounds_read
   \<and> process_line Map.empty parser_init (''Include = /etc/pacman.d/mirrorlist'' @ [CHR 0x0A]) =
     Inl Out_of_bounds_read"
  by code_simp

subsection \<open>Include directives\<close>

lemma key_value_view:
  "view a = view b \<Longrightarrow>
   map_sum id view (key_value fs a line) = map_sum id view (key_value fs b line)"
  by (simp add: view_def key_value_def current_repo_def store_current_def Let_def
      split: sum.splits option.splits prod.splits)

lemma process_line_view:
  "view a = view b \<Longrightarrow>
   map_sum id view (process_line fs a buf) = map_sum id view (process_line fs b buf)"
proof -
  assume v: "view a = view b"
  let ?line = "strip_line buf"
  let ?a1 = "a\<lparr>active_repos := active_repos a @ [repo_new (section_name ?line)],
                cur_section := Some (section_name ?line), in_options := False\<rparr>"
  let ?b1 = "b\<lparr>active_repos := active_repos b @ [repo_new (section_name ?line)],
                cur_section := Some (section_name ?line), in_options := False\<rparr>"
  from v have v1: "view ?a1 = view ?b1" by (simp add: view_def)
  from v have io: "in_options a = in_options b" by (simp add: view_def)
  show ?thesis
    using v io key_value_view [OF v, of fs ?line] key_value_view [OF v1, of fs ?line]
    by (simp add: process_line_def Let_def view_def)
qed

lemma parse_lines_view:
  "view a = view b \<Longrightarrow>
   map_sum id view (parse_lines fs a bufs) = map_sum id view (parse_lines fs b bufs)"
proof (induction bufs arbitrary: a b)
  case Nil
  then show ?case by simp
next
  case (Cons buf bufs)
  from process_line_view [OF Cons.prems, of fs buf] show ?case
  proof (cases "process_line fs a buf")
    case (Inl e)
    with process_line_view [OF Cons.prems, of fs buf] have "process_line fs b buf = Inl e"
      by (cases "process_line fs b buf") simp_all
    with Inl show ?thesis by simp
  next
    case (Inr a1)
    with process_line_view [OF Cons.prems, of fs buf] obtain b1
      where b1: "process_line fs b buf = Inr b1" and "view a1 = view b1"
      by (cases "process_line fs b buf") simp_all
    from Cons.IH [OF this(2)] Inr b1 show ?thesis by simp
  qed
qed

lemma parse_lines_append:
  "parse_lines fs st (xs @ ys) =
     (case parse_lines fs st xs of Inl e \<Rightarrow> Inl e | Inr st1 \<Rightarrow> parse_lines fs st1 ys)"
  by (induction xs arbitrary: st) (auto split: sum.splits)

lemma include_directive:
  assumes "line_key (strip_line buf) = ''Include''"
    and "line_get_val (strip_line buf) = Some path"
    and "active_repos st \<noteq> []" and "\<not> in_options st"
  shows "process_line fs st buf =
     (case add_servers_from_include fs (Some (last (active_repos st))) (Some path) of
        Inl e \<Rightarrow> Inl e
      | Inr (_, repo', msgs) \<Rightarrow> Inr ((store_current st repo')\<lparr>errors := errors st @ msgs\<rparr>))"
proof -
  let ?line = "strip_line buf"
  from assms(1) have ne: "?line \<noteq> []"
    by (auto simp: line_key_def strtrim_def)
  from assms(1) have nh: "\<not> is_header ?line"
    using header_not_directive [of ?line] by auto
  from assms(2) have eq: "CHR ''='' \<in> set ?line"
    by (simp add: line_get_val_def split: if_splits)
  from ne nh eq assms show ?thesis
    by (simp add: process_line_def Let_def key_value_def current_repo_def)
qed

text \<open>
  Claim C9. An \<^verbatim>\<open>Include\<close> directive inside a repository's section whose file
  cannot be opened is reported with \<^verbatim>\<open>perror\<close> and changes nothing else: the
  repository gains no server, and the repositories and servers of the whole file are
  those of the file without the directive, whatever follows it.
\<close>

theorem unreadable_include_skipped:
  assumes "line_key (strip_line buf) = ''Include''"
    and "line_get_val (strip_line buf) = Some path"
    and "fs path = None"
    and "parse_lines fs st pre = Inr st1"
    and "active_repos st1 \<noteq> []" and "\<not> in_options st1"
  shows "process_line fs st1 buf = Inr (st1\<lparr>errors := errors st1 @ [Perror ''fopen'']\<rparr>)
       \<and> repos_of (parse_lines fs st (pre @ buf # post)) = repos_of (parse_lines fs st (pre @ post))"
proof -
  let ?st2 = "st1\<lparr>errors := errors st1 @ [Perror ''fopen'']\<rparr>"
  from assms(3,5) have one: "process_line fs st1 buf = Inr ?st2"
    by (simp add: include_directive [OF assms(1,2,5,6)] add_servers_from_include_def
        store_current_def)
  have "view ?st2 = view st1" by (simp add: view_def)
  from parse_lines_view [OF this, of fs post]
  have "repos_of (parse_lines fs ?st2 post) = repos_of (parse_lines fs st1 post)"
    by (cases "parse_lines fs ?st2 post"; cases "parse_lines fs st1 post")
      (simp_all add: repos_of_def view_def)
  with one assms(4) show ?thesis
    by (simp add: parse_lines_append)
qed

theorem unreadable_include_skipped_witness:
  "line_key (strip_line missing_include) = ''Include''
   \<and> line_get_val (strip_line missing_include) = Some ''/etc/pacman.d/missing''
   \<and> sample_files ''/etc/pacman.d/missing'' = None
   \<and> read_lines sample_conf = sample_before @ missing_include # sample_after
   \<and> repos_of (parse_lines sample_files parser_init (sample_before @ sample_after)) =
       Inr (active_repos sample_parsed)
   \<and> repos_of (find_active_repos sample_files ''/etc/pacman.conf'') =
       Inr (active_repos sample_parsed)"
proof -
  let ?st1 = "\<lparr>active_repos =
        [\<lparr>name = ''core'',
          servers = [''http://first/$repo'', ''http://m1/$repo/os/$arch'', ''http://m2/$repo'']\<rparr>,
         \<lparr>name = ''extra'', servers = [''http://x/$repo'']\<rparr>],
      cur_section = Some ''extra'', in_options = False, errors = []\<rparr>"
  have k: "line_key (strip_line missing_include) = ''Include''"
    by code_simp
  have v: "line_get_val (strip_line missing_include) = Some ''/etc/pacman.d/missing''"
    by code_simp
  have n: "sample_files ''/etc/pacman.d/missing'' = None"
    by (simp add: sample_files_def)
  have b: "parse_lines sample_files parser_init sample_before = Inr ?st1"
    by code_simp
  have a: "active_repos ?st1 \<noteq> []" and o: "\<not> in_options ?st1"
    by simp_all
  have l: "read_lines sample_conf = sample_before @ missing_include # sample_after"
    by code_simp
  have r: "repos_of (parse_lines sample_files parser_init (sample_before @ sample_after)) =
       Inr (active_repos sample_parsed)"
    by code_simp
  have f: "find_active_repos sample_files ''/etc/pacman.conf'' =
      parse_lines sample_files parser_init (read_lines sample_conf)"
    by (simp add: find_active_repos_def sample_files_def)
  from unreadable_include_skipped [where fs = sample_files and post = sample_after, OF k v n b a o]
    k v n l r f
  show ?thesis by simp
qed

lemma include_loop_servers:
  "\<forall>l\<in>set (filter (\<lambda>l. take (length ''Server'') l = ''Server'') (map strip_line bufs)).
      CHR ''='' \<in> set l \<Longrightarrow>
   include_loop (Some r) bufs =
     Inr (Some (r\<lparr>servers := servers r @
        map (\<lambda>l. strtrim (tl (dropWhile (\<lambda>c. c \<noteq> CHR ''='') l)))
          (filter (\<lambda>l. take (length ''Server'') l = ''Server'') (map strip_line bufs))\<rparr>))"
proof (induction bufs arbitrary: r)
  case Nil
  then show ?case by simp
next
  case (Cons buf bufs)
  show ?case
  proof (cases "take (length ''Server'') (strip_line buf) = ''Server''")
    case True
    with Cons.prems have eq: "CHR ''='' \<in> set (strip_line buf)" by simp
    from True have "strip_line buf \<noteq> []" by auto
    with True eq Cons.prems Cons.IH [of "r\<lparr>servers := servers r @
        [strtrim (tl (dropWhile (\<lambda>c. c \<noteq> CHR ''='') (strip_line buf)))]\<rparr>"]
    show ?thesis
      by (simp add: Let_def repo_add_server_def line_get_val_def)
  next
    case False
    with Cons.prems Cons.IH [of r] show ?thesis
      by (simp add: Let_def)
  qed
qed

text \<open>
  What an \<^verbatim>\<open>Include\<close> directive inside a repository's section does when every
  line of the included file that begins with \<^verbatim>\<open>Server\<close> has a separator: it
  appends to the repository's servers, after those it already has, the values of these
  lines in the file's order, each value the trimmed text after the line's first
  \<^verbatim>\<open>=\<close>. Section headers and lines that do not begin with \<^verbatim>\<open>Server\<close>
  contribute nothing.
\<close>

lemma include_appends_servers:
  assumes "line_key (strip_line buf) = ''Include''"
    and "line_get_val (strip_line buf) = Some path"
    and "fs path = Some contents"
    and "active_repos st \<noteq> []" and "\<not> in_options st"
    and "\<forall>l\<in>set (server_lines contents). CHR ''='' \<in> set l"
  shows "process_line fs st buf =
     Inr (st\<lparr>active_repos := butlast (active_repos st) @
        [(last (active_repos st))\<lparr>servers := servers (last (active_repos st)) @
            include_servers contents\<rparr>]\<rparr>)"
proof -
  from assms(6) have "include_loop (Some (last (active_repos st))) (read_lines contents) =
     Inr (Some ((last (active_repos st))\<lparr>servers := servers (last (active_repos st)) @
            include_servers contents\<rparr>))"
    unfolding server_lines_def include_servers_def by (rule include_loop_servers)
  with assms(3) show ?thesis
    by (simp add: include_directive [OF assms(1,2,4,5)] add_servers_from_include_def
        store_current_def)
qed

lemma include_appends_servers_example:
  "line_key (strip_line (''Include = /etc/pacman.d/mirrorlist'' @ [CHR 0x0A])) = ''Include''
   \<and> line_get_val (strip_line (''Include = /etc/pacman.d/mirrorlist'' @ [CHR 0x0A])) =
       Some ''/etc/pacman.d/mirrorlist''
   \<and> sample_files ''/etc/pacman.d/mirrorlist'' = Some sample_mirrorlist
   \<and> server_lines sample_mirrorlist =
       [''Server = http://m1/$repo/os/$arch'', ''Server=http://m2/$repo'']
   \<and> process_line sample_files core_section (''Include = /etc/pacman.d/mirrorlist'' @ [CHR 0x0A]) =
       Inr (core_section\<lparr>active_repos :=
         [\<lparr>name = ''core'',
           servers = [''http://first/$repo'', ''http://m1/$repo/os/$arch'', ''http://m2/$repo'']\<rparr>]\<rparr>)"
proof -
  let ?buf = "''Include = /etc/pacman.d/mirrorlist'' @ [CHR 0x0A]"
  have k: "line_key (strip_line ?buf) = ''Include''"
    by code_simp
  have v: "line_get_val (strip_line ?buf) = Some ''/etc/pacman.d/mirrorlist''"
    by code_simp
  have f: "sample_files ''/etc/pacman.d/mirrorlist'' = Some sample_mirrorlist"
    by (simp add: sample_files_def)
  have a: "active_repos core_section \<noteq> []" and o: "\<not> in_options core_section"
    by (simp_all add: core_section_def)
  have l: "server_lines sample_mirrorlist =
       [''Server = http://m1/$repo/os/$arch'', ''Server=http://m2/$repo'']"
    by code_simp
  then have w: "\<forall>l\<in>set (server_lines sample_mirrorlist). CHR ''='' \<in> set l"
    by simp
  have s: "include_servers sample_mirrorlist = [''http://m1/$repo/os/$arch'', ''http://m2/$repo'']"
    by code_simp
  from include_appends_servers [where fs = sample_files and st = core_section, OF k v f a o w]
    k v f l s show ?thesis
    by (simp add: core_section_def)
qed

text \<open>
  Claim C6. The claim is that an \<^verbatim>\<open>Include\<close> directive appends the included
  file's servers in order at the position of the directive, and that only lines whose
  key is exactly \<^verbatim>\<open>Server\<close> contribute. \<^verbatim>\<open>add_servers_from_include\<close> compares
  the first six bytes of the line and does not look for the separator, where
  \<^verbatim>\<open>find_active_repos\<close> tests for \<^verbatim>\<open>=\<close> and compares the trimmed key:
  evaluated on an included file whose only line has the key \<^verbatim>\<open>ServerList\<close>, the
  repository gains that line's value as a server; and on an included file whose only
  line is \<^verbatim>\<open>Server\<close> followed by a URL with no \<^verbatim>\<open>=\<close>, a \<^verbatim>\<open>NULL\<close> value
  reaches \<^verbatim>\<open>strdup\<close>.
\<close>

theorem include_matches_server_prefix:
  "find_active_repos prefix_files ''/etc/pacman.conf'' =
     Inr \<lparr>active_repos = [\<lparr>name = ''core'', servers = [''http://m/$repo'']\<rparr>],
          cur_section = Some ''core'', in_options = False, errors = []\<rparr>
   \<and> prefix_files ''/etc/mirrors'' = Some (''ServerList = http://m/$repo'' @ [CHR 0x0A])
   \<and> line_key ''ServerList = http://m/$repo'' = ''ServerList''
   \<and> bare_server_files ''/etc/mirrors'' = Some (''Server http://m/$repo'' @ [CHR 0x0A])
   \<and> find_active_repos bare_server_files ''/etc/pacman.conf'' = Inl Null_string"
  by code_simp

end
